theory Spec2Isabelle
  imports Complex_Main "HOL-Library.Word"
begin

section \<open>Sorts, terms and queries\<close>

text \<open>
  A \<open>Z3SortHandle\<close> is inspected by the solver through \<open>getKind()\<close>,
  \<open>getBitVectorWidth()\<close> (an \<open>unsigned\<close>) and \<open>toStr()\<close> only.  The kinds the
  code distinguishes are \<open>Z3_BOOL_SORT\<close>, \<open>Z3_BV_SORT\<close> and everything else; a sort of
  another kind carries the text that \<open>toStr()\<close> yields for it.
\<close>

datatype Z3SortHandle = BoolSort | BVSort "32 word" | OtherSort string

text \<open>
  A \<open>Z3ASTHandle\<close> is a handle into the term graph owned by the context; two handles are
  equal when they denote the same node.  A node has a sort; \<open>isApp()\<close> tells whether it
  is an application, and an application has \<open>getNumKids()\<close> children \<open>getKid(i)\<close>.
\<close>

type_synonym Z3ASTHandle = nat

record Z3Node =
  nodeSort :: Z3SortHandle
  nodeIsApp :: bool
  nodeKids :: "Z3ASTHandle list"

type_synonym Z3Context = "Z3ASTHandle \<Rightarrow> Z3Node"

record Query =
  constraints :: "Z3ASTHandle list"

section \<open>SortConformanceCheckPass\<close>

record SortConformanceCheckPass =
  predicateHeld :: bool
  predicate :: "Z3SortHandle \<Rightarrow> bool"

definition newSortConformanceCheckPass ::
    "(Z3SortHandle \<Rightarrow> bool) \<Rightarrow> SortConformanceCheckPass" where
  "newSortConformanceCheckPass pr = \<lparr>predicateHeld = False, predicate = pr\<rparr>"

text \<open>
  Modelled from the spec: the accessor \<open>predicateAlwaysHeld()\<close>, declared in
  \<open>SortConformanceCheckPass.h\<close> outside the sources; it reads the member
  \<open>predicateHeld\<close>, the boolean output of the check.
\<close>

definition predicateAlwaysHeld :: "SortConformanceCheckPass \<Rightarrow> bool" where
  "predicateAlwaysHeld p = predicateHeld p"

text \<open>
  The local state of the loop of \<open>run\<close>: the work list, the visited set and the
  member \<open>predicateHeld\<close>.  \<open>evaluated\<close> is an observation added by the model: the nodes
  whose sort was handed to the predicate, in the order of the calls.  (The set
  \<open>variables\<close> that the source declares is never read or written and is left out.)
\<close>

record LoopState =
  workList :: "Z3ASTHandle list"
  visited :: "Z3ASTHandle set"
  held :: bool
  evaluated :: "Z3ASTHandle list"

text \<open>\<open>workList.push_front(x)\<close> for each element of a sequence, first to last.\<close>

definition pushFrontAll :: "Z3ASTHandle list \<Rightarrow> Z3ASTHandle list \<Rightarrow> Z3ASTHandle list" where
  "pushFrontAll xs wl = fold (\<lambda>x acc. x # acc) xs wl"

text \<open>
  The \<open>while (workList.size() != 0)\<close> loop.  \<open>continue\<close> is the recursive call,
  \<open>break\<close> returns.  The loop is not known to end on an arbitrary graph, so not
  returning is the value \<open>None\<close>.
\<close>

partial_function (option) runLoop ::
    "Z3Context \<Rightarrow> (Z3SortHandle \<Rightarrow> bool) \<Rightarrow> LoopState \<Rightarrow> LoopState option" where
  "runLoop g pr s =
     (case workList s of
        [] \<Rightarrow> Some s
      | node # rest \<Rightarrow>
          if node \<in> visited s then runLoop g pr (s\<lparr>workList := rest\<rparr>)
          else if \<not> pr (nodeSort (g node))
          then Some (s\<lparr>workList := rest, held := False,
                       evaluated := evaluated s @ [node]\<rparr>)
          else if \<not> nodeIsApp (g node)
          then runLoop g pr (s\<lparr>workList := rest,
                                 visited := insert node (visited s),
                                 evaluated := evaluated s @ [node]\<rparr>)
          else runLoop g pr (s\<lparr>workList := pushFrontAll (nodeKids (g node)) rest,
                                 visited := insert node (visited s),
                                 evaluated := evaluated s @ [node]\<rparr>))"

declare runLoop.simps [code]

text \<open>
  What a call of \<open>run\<close> leaves behind: the returned boolean, the pass object, the
  query and the term graph (both reachable from the \<open>Query&\<close> argument), and the
  observation of the predicate calls.
\<close>

record RunResult =
  returned :: bool
  passAfter :: SortConformanceCheckPass
  queryAfter :: Query
  contextAfter :: Z3Context
  predicateCalls :: "Z3ASTHandle list"

definition run ::
    "Z3Context \<Rightarrow> SortConformanceCheckPass \<Rightarrow> Query \<Rightarrow> RunResult option" where
  "run g p q =
     (case runLoop g (predicate p)
             \<lparr>workList = pushFrontAll (constraints q) [], visited = {},
              held = True, evaluated = []\<rparr> of
        None \<Rightarrow> None
      | Some s \<Rightarrow>
          Some \<lparr>returned = False, passAfter = p\<lparr>predicateHeld := held s\<rparr>,
                queryAfter = q, contextAfter = g, predicateCalls = evaluated s\<rparr>)"

section \<open>Reachable terms\<close>

text \<open>
  The terms of a query: the top-level constraints and, repeatedly, the children of
  every application among them.
\<close>

definition kidsOf :: "Z3Context \<Rightarrow> Z3ASTHandle \<Rightarrow> Z3ASTHandle set" where
  "kidsOf g n = (if nodeIsApp (g n) then set (nodeKids (g n)) else {})"

definition kidEdges :: "Z3Context \<Rightarrow> (Z3ASTHandle \<times> Z3ASTHandle) set" where
  "kidEdges g = {(n, k). k \<in> kidsOf g n}"

definition reachable :: "Z3Context \<Rightarrow> Query \<Rightarrow> Z3ASTHandle set" where
  "reachable g q = (kidEdges g)\<^sup>* `` set (constraints q)"

text \<open>
  The invariant of the loop for a query \<open>q\<close>, and what holds of the state in which
  the loop ends.
\<close>

definition loopInv ::
    "Z3Context \<Rightarrow> (Z3SortHandle \<Rightarrow> bool) \<Rightarrow> Query \<Rightarrow> LoopState \<Rightarrow> bool" where
  "loopInv g pr q s \<longleftrightarrow>
     set (workList s) \<subseteq> reachable g q \<and>
     visited s \<subseteq> reachable g q \<and>
     set (constraints q) \<subseteq> visited s \<union> set (workList s) \<and>
     (\<forall>n\<in>visited s. kidsOf g n \<subseteq> visited s \<union> set (workList s)) \<and>
     (\<forall>n\<in>visited s. pr (nodeSort (g n))) \<and>
     held s \<and> set (evaluated s) = visited s \<and> distinct (evaluated s)"

definition loopPost ::
    "Z3Context \<Rightarrow> (Z3SortHandle \<Rightarrow> bool) \<Rightarrow> Query \<Rightarrow> LoopState \<Rightarrow> bool" where
  "loopPost g pr q s \<longleftrightarrow>
     held s = (\<forall>n\<in>reachable g q. pr (nodeSort (g n))) \<and>
     distinct (evaluated s) \<and>
     set (evaluated s) \<subseteq> reachable g q \<and>
     (held s \<longrightarrow> set (evaluated s) = reachable g q)"

section \<open>The backend's sort predicate\<close>

text \<open>
  Text written to a stream of the context is a list of messages, one per statement of
  the source that writes, oldest first.  \<open>showNat\<close> is the decimal rendering that
  \<open>operator<<\<close> gives an \<open>unsigned\<close>.
\<close>

function showNat :: "nat \<Rightarrow> string" where
  "showNat n =
     (if n < 10 then [char_of (48 + n)]
      else showNat (n div 10) @ [char_of (48 + n mod 10)])"
  by pat_completeness auto
termination
  by (relation "measure id") auto

declare showNat.simps [simp del]

text \<open>
  Modelled from the spec: the macro \<open>IF_VERB\<close> of \<open>jfs/Core/IfVerbose.h\<close>, which is not
  among the sources.  The spec calls the diagnostics of the context verbosity-gated,
  and the solver treats verbosity 0 as quiet: the guarded statement runs when the
  verbosity of the context is above 0.
\<close>

definition IF_VERB :: "nat \<Rightarrow> string list \<Rightarrow> string list" where
  "IF_VERB verbosityLevel msgs = (if 0 < verbosityLevel then msgs else [])"

text \<open>
  The lambda that \<open>sortsAreSupported\<close> hands to the pass: its answer, and what it writes
  to the warning stream of the context.
\<close>

definition sortPredicate :: "nat \<Rightarrow> Z3SortHandle \<Rightarrow> bool \<times> string list" where
  "sortPredicate verbosityLevel s =
     (case s of
        BoolSort \<Rightarrow> (True, [])
      | BVSort width \<Rightarrow>
          if width \<le> 64 then (True, [])
          else (False, IF_VERB verbosityLevel
                  [''(BitVector width '' @ showNat (unat width)
                     @ '' not supported)'' @ [CHR 0x0A]])
      | OtherSort str \<Rightarrow>
          (False, IF_VERB verbosityLevel
             [''(Sort '' @ [CHR 0x22] @ str @ [CHR 0x22]
                @ '' not supported)'' @ [CHR 0x0A]]))"

text \<open>Reading a decimal numeral back, to say what number a text names.\<close>

definition digitValue :: "char \<Rightarrow> nat" where
  "digitValue c = of_char c - 48"

definition readNat :: "string \<Rightarrow> nat" where
  "readNat cs = foldl (\<lambda>acc c. 10 * acc + digitValue c) 0 cs"

section \<open>CXXFuzzingSolverImpl\<close>

datatype SolverSatisfiability = SAT | UNSAT | UNKNOWN

text \<open>
  \<open>CXXFuzzingSolverResponse\<close>: the satisfiability it was constructed with;
  \<open>getModel()\<close> returns the null pointer.
\<close>

record CXXFuzzingSolverResponse =
  sat :: SolverSatisfiability

typedecl Model

definition getModel :: "CXXFuzzingSolverResponse \<Rightarrow> Model option" where
  "getModel r = None"

datatype 'a unique_ptr = nullptr | Ptr 'a

text \<open>
  Modelled from the spec: \<open>LibFuzzerResponse::ResponseTy\<close>, declared outside the
  sources; the outcome of the Fuzz Execution Manager is one of TARGET_FOUND, UNKNOWN
  and CANCELLED.  (\<open>LF_UNKNOWN\<close> is \<open>ResponseTy::UNKNOWN\<close>, renamed apart from
  \<open>SolverResponse::UNKNOWN\<close>.)
\<close>

datatype ResponseTy = TARGET_FOUND | LF_UNKNOWN | CANCELLED

datatype SanitizerCoverageTy = TRACE_CMP | OtherCoverage nat

record LibFuzzerOptions =
  maxLength :: nat
  targetBinary :: string
  corpusDir :: string
  artifactDir :: string
  useCmp :: bool

text \<open>
  The two pass objects a call of \<open>fuzz\<close> allocates, named after the variables \<open>p\<close>
  (in \<open>sortsAreSupported\<close>) and \<open>pbp\<close> that hold them; \<open>cancellablePasses\<close> is a set
  of such pointers.
\<close>

datatype QueryPassPtr = SortConformanceCheckPassPtr | CXXProgramBuilderPassPtr

text \<open>
  Calls that leave the solver, logged in the order they are made.  \<open>PassCancel ps\<close>
  stands for the loop of \<open>cancel()\<close> over the registry, which calls \<open>pass->cancel()\<close> on
  every member of \<open>ps\<close> in an order the \<open>unordered_set\<close> does not fix.
\<close>

datatype Call =
    RunSortConformanceCheckPass
  | RunCXXProgramBuilderPass
  | ClangCompile string string string string
  | LibFuzzerFuzz LibFuzzerOptions string string
  | PassCancel "QueryPassPtr set"
  | ClangCancel
  | LibFuzzerCancel

text \<open>
  The members \<open>cancellablePasses\<close> and \<open>cancelled\<close> of the solver, the three streams
  of its context, and the log of calls.
\<close>

record CXXFuzzingSolverImpl =
  cancellablePasses :: "QueryPassPtr set"
  cancelled :: bool
  errorStream :: "string list"
  warningStream :: "string list"
  debugStream :: "string list"
  calls :: "Call list"

definition newCXXFuzzingSolverImpl :: CXXFuzzingSolverImpl where
  "newCXXFuzzingSolverImpl =
     \<lparr>cancellablePasses = {}, cancelled = False, errorStream = [],
      warningStream = [], debugStream = [], calls = []\<rparr>"

definition getName :: string where
  "getName = ''CXXFuzzingSolver''"

definition cancel :: "CXXFuzzingSolverImpl \<Rightarrow> CXXFuzzingSolverImpl" where
  "cancel s =
     s\<lparr>cancelled := True,
       calls := calls s @ [PassCancel (cancellablePasses s), ClangCancel, LibFuzzerCancel]\<rparr>"

text \<open>
  The states of the orchestrator in which work is done, and what surrounds one call
  of \<open>fuzz\<close>: the verbosity of the context, the working directory manager, the Clang
  options, what the compilation and the fuzzer answer, and \<open>computeWidth\<close>: what
  \<open>info->freeVariableAssignment->bufferAssignment->computeWidth()\<close> returns once the
  program builder has run, the aggregate bit width of the free-variable buffer
  assignment.  That function is declared outside the sources, and with it the
  unsigned integer type it returns: \<open>unsignedBits\<close> is the number of bits of that type,
  the type in which \<open>(computeWidth() + 7) / 8\<close> is computed, and \<open>computeWidth\<close> is
  a value of it, below \<open>2 ^ unsignedBits\<close>.
  \<open>cancelDuring st\<close> tells whether another thread calls \<open>cancel()\<close> while the solving
  thread is in state \<open>st\<close>; that call takes the lock of the registry, so it is one step
  between two steps of the solving thread.
\<close>

datatype Stage = CheckSorts | BuildProgram | Compile | ConfigureFuzzer | Fuzz

record Environment =
  verbosity :: nat
  getPathToFileInDirectory :: "string \<Rightarrow> string"
  makeNewDirectoryInDirectory :: "string \<Rightarrow> string"
  sanitizerCoverageOptions :: "SanitizerCoverageTy list"
  computeWidth :: nat
  unsignedBits :: nat
  compileSuccess :: bool
  fuzzingOutcome :: ResponseTy
  cancelDuring :: "Stage \<Rightarrow> bool"

text \<open>A call of \<open>cancel()\<close> from another thread, if one lands in state \<open>st\<close>.\<close>

definition concurrently :: "Environment \<Rightarrow> Stage \<Rightarrow> CXXFuzzingSolverImpl \<Rightarrow> CXXFuzzingSolverImpl" where
  "concurrently env st s = (if cancelDuring env st then cancel s else s)"

text \<open>
  \<open>sortsAreSupported\<close>.  The pass manager holds the one pass \<open>p\<close>, so \<open>pm.run(q)\<close> is
  \<open>p->run(q)\<close> (the spec: a pass manager runs each pass in insertion order on the
  query).  What the lambda writes to the warning stream is written once for every
  call of the predicate.
\<close>

definition sortsAreSupported ::
    "Environment \<Rightarrow> Z3Context \<Rightarrow> CXXFuzzingSolverImpl \<Rightarrow> Query
       \<Rightarrow> (bool \<times> CXXFuzzingSolverImpl) option" where
  "sortsAreSupported env g s q =
     (let p = newSortConformanceCheckPass (\<lambda>srt. fst (sortPredicate (verbosity env) srt));
          s1 = s\<lparr>cancellablePasses := insert SortConformanceCheckPassPtr (cancellablePasses s)\<rparr>
      in case run g p q of
           None \<Rightarrow> None
         | Some r \<Rightarrow>
             let s2 = concurrently env CheckSorts
                        (s1\<lparr>calls := calls s1 @ [RunSortConformanceCheckPass]\<rparr>);
                 s3 = s2\<lparr>warningStream := warningStream s2 @
                           concat (map (\<lambda>n. snd (sortPredicate (verbosity env) (nodeSort (g n))))
                                     (predicateCalls r))\<rparr>;
                 s4 = s3\<lparr>cancellablePasses := cancellablePasses s3 - {SortConformanceCheckPassPtr}\<rparr>
             in Some (predicateAlwaysHeld (passAfter r), s4))"

text \<open>The macro \<open>CHECK_CANCELLED\<close>: its test, and what the function returns when it fires.\<close>

definition cancelledResponse ::
    "Environment \<Rightarrow> CXXFuzzingSolverImpl
       \<Rightarrow> CXXFuzzingSolverResponse unique_ptr \<times> CXXFuzzingSolverImpl" where
  "cancelledResponse env s =
     (Ptr \<lparr>sat = UNKNOWN\<rparr>,
      s\<lparr>debugStream := debugStream s @
           IF_VERB (verbosity env) [''('' @ getName @ '' cancelled)'' @ [CHR 0x0A]]\<rparr>)"

text \<open>
  The program builder pass between its registration and the second
  \<open>cancellablePasses.insert(pbp.get())\<close>.
\<close>

definition buildProgram :: "Environment \<Rightarrow> CXXFuzzingSolverImpl \<Rightarrow> CXXFuzzingSolverImpl" where
  "buildProgram env s =
     (let s1 = s\<lparr>cancellablePasses := insert CXXProgramBuilderPassPtr (cancellablePasses s)\<rparr>;
          s2 = concurrently env BuildProgram
                 (s1\<lparr>calls := calls s1 @ [RunCXXProgramBuilderPass]\<rparr>)
      in s2\<lparr>cancellablePasses := insert CXXProgramBuilderPassPtr (cancellablePasses s2)\<rparr>)"

definition clangStdOutFile :: "Environment \<Rightarrow> string" where
  "clangStdOutFile env =
     (if verbosity env = 0 then getPathToFileInDirectory env ''clang.stdout.txt'' else [])"

definition clangStdErrFile :: "Environment \<Rightarrow> string" where
  "clangStdErrFile env =
     (if verbosity env = 0 then getPathToFileInDirectory env ''clang.stderr.txt'' else [])"

definition compile :: "Environment \<Rightarrow> CXXFuzzingSolverImpl \<Rightarrow> CXXFuzzingSolverImpl" where
  "compile env s =
     concurrently env Compile
       (s\<lparr>calls := calls s @
            [ClangCompile (getPathToFileInDirectory env ''program.cpp'')
               (getPathToFileInDirectory env ''fuzzer'')
               (clangStdOutFile env) (clangStdErrFile env)]\<rparr>)"

text \<open>
  The options of the fuzzer.  The sum \<open>computeWidth() + 7\<close> is taken in the unsigned
  type of \<open>computeWidth()\<close> and wraps at \<open>2 ^ unsignedBits\<close>.
\<close>

definition configureFuzzer :: "Environment \<Rightarrow> LibFuzzerOptions" where
  "configureFuzzer env =
     \<lparr>maxLength = ((computeWidth env + 7) mod 2 ^ unsignedBits env) div 8,
      targetBinary = getPathToFileInDirectory env ''fuzzer'',
      corpusDir = makeNewDirectoryInDirectory env ''corpus'',
      artifactDir = makeNewDirectoryInDirectory env ''artifacts'',
      useCmp = (TRACE_CMP \<in> set (sanitizerCoverageOptions env))\<rparr>"

definition libFuzzerStdOutFile :: "Environment \<Rightarrow> string" where
  "libFuzzerStdOutFile env =
     (if verbosity env = 0 then getPathToFileInDirectory env ''libfuzzer.stdout.txt'' else [])"

definition libFuzzerStdErrFile :: "Environment \<Rightarrow> string" where
  "libFuzzerStdErrFile env =
     (if verbosity env = 0 then getPathToFileInDirectory env ''libfuzzer.stderr.txt'' else [])"

definition runFuzzer :: "Environment \<Rightarrow> CXXFuzzingSolverImpl \<Rightarrow> CXXFuzzingSolverImpl" where
  "runFuzzer env s =
     (let s1 = concurrently env ConfigureFuzzer s
      in concurrently env Fuzz
           (s1\<lparr>calls := calls s1 @
                 [LibFuzzerFuzz (configureFuzzer env) (libFuzzerStdOutFile env)
                    (libFuzzerStdErrFile env)]\<rparr>))"

text \<open>
  \<open>CXXFuzzingSolverImpl::fuzz\<close>.  The outer \<open>option\<close> is \<open>None\<close> when the call does not
  return; the pointer returned is \<open>nullptr\<close> or a response.
\<close>

definition fuzz ::
    "Environment \<Rightarrow> Z3Context \<Rightarrow> CXXFuzzingSolverImpl \<Rightarrow> Query \<Rightarrow> bool
       \<Rightarrow> (CXXFuzzingSolverResponse unique_ptr \<times> CXXFuzzingSolverImpl) option" where
  "fuzz env g s q produceModel =
     (if produceModel
      then Some (nullptr,
                 s\<lparr>errorStream := errorStream s @
                      [''(error model generation not supported)'' @ [CHR 0x0A]]\<rparr>)
      else
        case sortsAreSupported env g s q of
          None \<Rightarrow> None
        | Some (supported, s1) \<Rightarrow>
            if \<not> supported
            then Some (Ptr \<lparr>sat = UNKNOWN\<rparr>,
                       s1\<lparr>debugStream := debugStream s1 @
                             IF_VERB (verbosity env) [''(unsupported sorts)'' @ [CHR 0x0A]]\<rparr>)
            else if cancelled s1 then Some (cancelledResponse env s1)
            else
              let s2 = buildProgram env s1 in
              if cancelled s2 then Some (cancelledResponse env s2)
              else
                let s3 = compile env s2 in
                if \<not> compileSuccess env then Some (Ptr \<lparr>sat = UNKNOWN\<rparr>, s3)
                else if cancelled s3 then Some (cancelledResponse env s3)
                else
                  let s4 = runFuzzer env s3 in
                  if fuzzingOutcome env = LF_UNKNOWN \<or> fuzzingOutcome env = CANCELLED
                  then Some (Ptr \<lparr>sat = UNKNOWN\<rparr>, s4)
                  else Some (Ptr \<lparr>sat = SAT\<rparr>, s4))"

section \<open>Observations on the log of calls\<close>

fun isCheckSortsCall :: "Call \<Rightarrow> bool" where
  "isCheckSortsCall RunSortConformanceCheckPass = True"
| "isCheckSortsCall _ = False"

fun isBuildProgramCall :: "Call \<Rightarrow> bool" where
  "isBuildProgramCall RunCXXProgramBuilderPass = True"
| "isBuildProgramCall _ = False"

fun isCompileCall :: "Call \<Rightarrow> bool" where
  "isCompileCall (ClangCompile src out so se) = True"
| "isCompileCall _ = False"

fun isFuzzCall :: "Call \<Rightarrow> bool" where
  "isFuzzCall (LibFuzzerFuzz lfo so se) = True"
| "isFuzzCall _ = False"

text \<open>The calls logged between two states of the solver, the later one second.\<close>

definition callsSince :: "CXXFuzzingSolverImpl \<Rightarrow> CXXFuzzingSolverImpl \<Rightarrow> Call list" where
  "callsSince s s' = drop (length (calls s)) (calls s')"

definition invocations :: "(Call \<Rightarrow> bool) \<Rightarrow> Call list \<Rightarrow> nat" where
  "invocations isIt cs = length (filter isIt cs)"

text \<open>The passes on which a logged \<open>cancel()\<close> of the solver called \<open>pass->cancel()\<close>.\<close>

fun passesCancelled :: "Call list \<Rightarrow> QueryPassPtr set" where
  "passesCancelled [] = {}"
| "passesCancelled (PassCancel ps # cs) = ps \<union> passesCancelled cs"
| "passesCancelled (c # cs) = passesCancelled cs"

section \<open>Example inputs\<close>

text \<open>
  A query of two constraints over a bit-vector variable \<open>x\<close> of width 8 (node 0) and a
  bit-vector variable \<open>y\<close> of width \<open>w\<close> (node 3): node 1 is a Boolean application
  with the child \<open>x\<close>, node 2 a Boolean application with the children \<open>x\<close> and \<open>y\<close>.
  \<open>x\<close> is shared by the two constraints.
\<close>

definition exampleContext :: "32 word \<Rightarrow> Z3Context" where
  "exampleContext w n =
     (if n = 0 then \<lparr>nodeSort = BVSort 8, nodeIsApp = True, nodeKids = []\<rparr>
      else if n = 1 then \<lparr>nodeSort = BoolSort, nodeIsApp = True, nodeKids = [0]\<rparr>
      else if n = 2 then \<lparr>nodeSort = BoolSort, nodeIsApp = True, nodeKids = [0, 3]\<rparr>
      else if n = 3 then \<lparr>nodeSort = BVSort w, nodeIsApp = True, nodeKids = []\<rparr>
      else \<lparr>nodeSort = BoolSort, nodeIsApp = True, nodeKids = []\<rparr>)"

definition exampleQuery :: Query where
  "exampleQuery = \<lparr>constraints = [1, 2]\<rparr>"

definition widthAtMost64 :: "Z3SortHandle \<Rightarrow> bool" where
  "widthAtMost64 s = fst (sortPredicate 0 s)"

definition examplePass :: SortConformanceCheckPass where
  "examplePass = newSortConformanceCheckPass widthAtMost64"

text \<open>
  Surroundings in which the compilation succeeds, the fuzzer finds the target, nobody
  cancels, and the free variables take 1, 7 and 16 bits of the buffer.
\<close>

definition noCancel :: "Stage \<Rightarrow> bool" where
  "noCancel st = False"

definition cancelWhileConfiguring :: "Stage \<Rightarrow> bool" where
  "cancelWhileConfiguring st = (st = ConfigureFuzzer)"

definition cancelWhileCompiling :: "Stage \<Rightarrow> bool" where
  "cancelWhileCompiling st = (st = Compile)"

definition inWorkDir :: "string \<Rightarrow> string" where
  "inWorkDir name = ''/wd/'' @ name"

definition exampleEnvironment :: Environment where
  "exampleEnvironment =
     \<lparr>verbosity = 0, getPathToFileInDirectory = inWorkDir,
      makeNewDirectoryInDirectory = inWorkDir, sanitizerCoverageOptions = [TRACE_CMP],
      computeWidth = 1 + 7 + 16, unsignedBits = 32, compileSuccess = True,
      fuzzingOutcome = TARGET_FOUND, cancelDuring = noCancel\<rparr>"

section \<open>The work list loop\<close>

lemma pushFrontAll_eq: "pushFrontAll xs wl = rev xs @ wl"
  unfolding pushFrontAll_def by (induction xs arbitrary: wl) auto

lemma set_pushFrontAll: "set (pushFrontAll xs wl) = set xs \<union> set wl"
  by (simp add: pushFrontAll_eq)

lemma kids_reachable:
  "n \<in> reachable g q \<Longrightarrow> k \<in> kidsOf g n \<Longrightarrow> k \<in> reachable g q"
  unfolding reachable_def kidEdges_def
  by (auto intro: rtrancl.rtrancl_into_rtrancl)

lemma constraints_reachable: "set (constraints q) \<subseteq> reachable g q"
  unfolding reachable_def by auto

lemma reachable_closed:
  assumes "set (constraints q) \<subseteq> A" and "\<And>n. n \<in> A \<Longrightarrow> kidsOf g n \<subseteq> A"
  shows "reachable g q \<subseteq> A"
proof
  fix x assume "x \<in> reachable g q"
  then obtain c where c: "c \<in> set (constraints q)" and r: "(c, x) \<in> (kidEdges g)\<^sup>*"
    unfolding reachable_def by auto
  from r c show "x \<in> A"
  proof (induction rule: rtrancl_induct)
    case base
    then show ?case using assms(1) by auto
  next
    case (step y z)
    then have "y \<in> A" by simp
    moreover from step(2) have "z \<in> kidsOf g y" unfolding kidEdges_def by simp
    ultimately show ?case using assms(2) by auto
  qed
qed

lemma loopInv_skip:
  assumes "loopInv g pr q s" "workList s = node # rest" "node \<in> visited s"
  shows "loopInv g pr q (s\<lparr>workList := rest\<rparr>)"
  using assms unfolding loopInv_def by auto

lemma loopInv_leaf:
  assumes "loopInv g pr q s" "workList s = node # rest" "node \<notin> visited s"
    "pr (nodeSort (g node))" "\<not> nodeIsApp (g node)"
  shows "loopInv g pr q (s\<lparr>workList := rest, visited := insert node (visited s),
                               evaluated := evaluated s @ [node]\<rparr>)"
  using assms unfolding loopInv_def by (auto simp: kidsOf_def)

lemma loopInv_app:
  assumes "loopInv g pr q s" "workList s = node # rest" "node \<notin> visited s"
    "pr (nodeSort (g node))" "nodeIsApp (g node)"
  shows "loopInv g pr q (s\<lparr>workList := pushFrontAll (nodeKids (g node)) rest,
                               visited := insert node (visited s),
                               evaluated := evaluated s @ [node]\<rparr>)"
proof -
  have nR: "node \<in> reachable g q" using assms(1,2) unfolding loopInv_def by auto
  have kn: "kidsOf g node = set (nodeKids (g node))" using assms(5) by (simp add: kidsOf_def)
  have kR: "set (nodeKids (g node)) \<subseteq> reachable g q"
    using kids_reachable[OF nR] kn by auto
  have old: "\<forall>n\<in>visited s. kidsOf g n \<subseteq> visited s \<union> set (workList s)"
    using assms(1) unfolding loopInv_def by simp
  have closed: "\<forall>n\<in>insert node (visited s).
      kidsOf g n \<subseteq> insert node (visited s) \<union> (set (nodeKids (g node)) \<union> set rest)"
    using old kn assms(2) by auto
  show ?thesis
    using assms(1-4) nR kR closed unfolding loopInv_def
    by (simp add: set_pushFrontAll) auto
qed

lemma loopPost_break:
  assumes "loopInv g pr q s" "workList s = node # rest" "node \<notin> visited s"
    "\<not> pr (nodeSort (g node))"
  shows "loopPost g pr q (s\<lparr>workList := rest, held := False,
                               evaluated := evaluated s @ [node]\<rparr>)"
  using assms unfolding loopInv_def loopPost_def by auto

lemma loopPost_done:
  assumes "loopInv g pr q s" "workList s = []"
  shows "loopPost g pr q s"
proof -
  have "reachable g q \<subseteq> visited s"
    using assms unfolding loopInv_def by (intro reachable_closed) auto
  then show ?thesis using assms unfolding loopInv_def loopPost_def by auto
qed

lemma card_unvisited_less:
  assumes "finite R" "node \<in> R" "node \<notin> V"
  shows "card (R - insert node V) < card (R - V)"
  using assms by (intro psubset_card_mono) auto

lemma runLoop_total_correct:
  assumes fin: "finite (reachable g q)" and inv: "loopInv g pr q s"
  shows "\<exists>s'. runLoop g pr s = Some s' \<and> loopPost g pr q s'"
proof -
  have "wf (measures [\<lambda>s. card (reachable g q - visited s), \<lambda>s. length (workList s)])"
    by simp
  then show ?thesis using inv
  proof (induction s rule: wf_induct_rule)
    case (less s)
    note 2 = less.IH less.prems
  show ?case
  proof (cases "workList s")
    case Nil
    then show ?thesis using loopPost_done[OF 2(2)] by (subst runLoop.simps) simp
  next
    case (Cons node rest)
    have nR: "node \<in> reachable g q" using 2(2) Cons unfolding loopInv_def by auto
    consider (skip) "node \<in> visited s"
      | (brk) "node \<notin> visited s" "\<not> pr (nodeSort (g node))"
      | (leaf) "node \<notin> visited s" "pr (nodeSort (g node))" "\<not> nodeIsApp (g node)"
      | (app) "node \<notin> visited s" "pr (nodeSort (g node))" "nodeIsApp (g node)"
      by blast
    then show ?thesis
    proof cases
      case skip
      let ?t = "s\<lparr>workList := rest\<rparr>"
      have "\<exists>s'. runLoop g pr ?t = Some s' \<and> loopPost g pr q s'"
        using loopInv_skip[OF 2(2) Cons skip] Cons by (intro 2(1)) auto
      then show ?thesis using Cons skip by (subst runLoop.simps) simp
    next
      case brk
      then show ?thesis using loopPost_break[OF 2(2) Cons brk] Cons
        by (subst runLoop.simps) simp
    next
      case leaf
      let ?t = "s\<lparr>workList := rest, visited := insert node (visited s),
                   evaluated := evaluated s @ [node]\<rparr>"
      have "\<exists>s'. runLoop g pr ?t = Some s' \<and> loopPost g pr q s'"
        using loopInv_leaf[OF 2(2) Cons leaf] card_unvisited_less[OF fin nR leaf(1)]
        by (intro 2(1)) auto
      then show ?thesis using Cons leaf by (subst runLoop.simps) simp
    next
      case app
      let ?t = "s\<lparr>workList := pushFrontAll (nodeKids (g node)) rest,
                   visited := insert node (visited s),
                   evaluated := evaluated s @ [node]\<rparr>"
      have "\<exists>s'. runLoop g pr ?t = Some s' \<and> loopPost g pr q s'"
        using loopInv_app[OF 2(2) Cons app] card_unvisited_less[OF fin nR app(1)]
        by (intro 2(1)) auto
      then show ?thesis using Cons app by (subst runLoop.simps) simp
    qed
  qed
  qed
qed

lemma loopInv_init:
  "loopInv g pr q \<lparr>workList = pushFrontAll (constraints q) [], visited = {},
                    held = True, evaluated = []\<rparr>"
  unfolding loopInv_def using constraints_reachable[of q g] by (simp add: set_pushFrontAll)


lemma count_list_distinct: "distinct xs \<Longrightarrow> count_list xs n = (if n \<in> set xs then 1 else 0)"
  by (induction xs) auto

lemma run_total_correct:
  assumes fin: "finite (reachable g q)"
  shows "\<exists>s'. run g p q =
            Some \<lparr>returned = False, passAfter = p\<lparr>predicateHeld := held s'\<rparr>,
                  queryAfter = q, contextAfter = g, predicateCalls = evaluated s'\<rparr>
          \<and> loopPost g (predicate p) q s'"
proof -
  obtain s' where "runLoop g (predicate p)
      \<lparr>workList = pushFrontAll (constraints q) [], visited = {},
       held = True, evaluated = []\<rparr> = Some s'" and "loopPost g (predicate p) q s'"
    using runLoop_total_correct[OF fin loopInv_init] by blast
  then show ?thesis unfolding run_def by auto
qed

text \<open>
  Claim C3, as the code has it.  On a query with finitely many reachable terms (every
  query whose terms form a finite DAG) \<open>run\<close> returns, and the result of the check,
  read through \<open>predicateAlwaysHeld\<close>, is true exactly when the predicate holds of the
  sort of every term reachable from the constraints.  The predicate is called on
  reachable terms only and at most once on each of them, however many parents share it;
  when the result is true it is called exactly once on every reachable term.  (When the
  predicate fails the loop stops at once, and terms still waiting are never evaluated.)
\<close>

theorem sort_conformance_check_result:
  assumes "finite (reachable g q)"
  shows "\<exists>r. run g p q = Some r \<and>
           predicateAlwaysHeld (passAfter r)
             = (\<forall>n\<in>reachable g q. predicate p (nodeSort (g n))) \<and>
           set (predicateCalls r) \<subseteq> reachable g q \<and>
           (\<forall>n. count_list (predicateCalls r) n \<le> 1) \<and>
           (predicateAlwaysHeld (passAfter r) \<longrightarrow>
              (\<forall>n\<in>reachable g q. count_list (predicateCalls r) n = 1))"
proof -
  obtain s' where r: "run g p q =
      Some \<lparr>returned = False, passAfter = p\<lparr>predicateHeld := held s'\<rparr>,
            queryAfter = q, contextAfter = g, predicateCalls = evaluated s'\<rparr>"
    and post: "loopPost g (predicate p) q s'"
    using run_total_correct[OF assms] by blast
  from post have d: "distinct (evaluated s')" unfolding loopPost_def by simp
  have once: "\<forall>n. count_list (evaluated s') n \<le> 1"
    using count_list_distinct[OF d] by simp
  have all: "held s' \<longrightarrow> (\<forall>n\<in>reachable g q. count_list (evaluated s') n = 1)"
    using post count_list_distinct[OF d] unfolding loopPost_def by simp
  show ?thesis
    using r post once all unfolding loopPost_def predicateAlwaysHeld_def by simp
qed

lemma example_reachable: "reachable (exampleContext w) exampleQuery = {0, 1, 2, 3}"
proof
  show "reachable (exampleContext w) exampleQuery \<subseteq> {0, 1, 2, 3}"
    by (rule reachable_closed) (auto simp: exampleQuery_def kidsOf_def exampleContext_def)
  have k1: "0 \<in> kidsOf (exampleContext w) 1" and k2: "3 \<in> kidsOf (exampleContext w) 2"
    by (simp_all add: kidsOf_def exampleContext_def)
  have c: "1 \<in> reachable (exampleContext w) exampleQuery"
      "2 \<in> reachable (exampleContext w) exampleQuery"
    using constraints_reachable[of exampleQuery "exampleContext w"]
    by (simp_all add: exampleQuery_def)
  show "{0, 1, 2, 3} \<subseteq> reachable (exampleContext w) exampleQuery"
    using c kids_reachable[OF c(1) k1] kids_reachable[OF c(2) k2] by simp
qed

lemma example_finite: "finite (reachable (exampleContext w) exampleQuery)"
  by (simp add: example_reachable)

lemma example_run_64:
  "run (exampleContext 64) examplePass exampleQuery =
     Some \<lparr>returned = False,
           passAfter = \<lparr>predicateHeld = True, predicate = widthAtMost64\<rparr>,
           queryAfter = exampleQuery, contextAfter = exampleContext 64,
           predicateCalls = [2, 3, 0, 1]\<rparr>"
  by (simp add: run_def runLoop.simps exampleContext_def examplePass_def exampleQuery_def
      newSortConformanceCheckPass_def widthAtMost64_def sortPredicate_def pushFrontAll_eq)

lemma example_run_65:
  "run (exampleContext 65) examplePass exampleQuery =
     Some \<lparr>returned = False,
           passAfter = \<lparr>predicateHeld = False, predicate = widthAtMost64\<rparr>,
           queryAfter = exampleQuery, contextAfter = exampleContext 65,
           predicateCalls = [2, 3]\<rparr>"
  by (simp add: run_def runLoop.simps exampleContext_def examplePass_def exampleQuery_def
      newSortConformanceCheckPass_def widthAtMost64_def sortPredicate_def pushFrontAll_eq)

text \<open>
  The theorem at the example query with \<open>y\<close> of width 64: the check succeeds and the
  shared variable \<open>x\<close> (node 0) is evaluated once.
\<close>

theorem sort_conformance_check_result_witness:
  "finite (reachable (exampleContext 64) exampleQuery) \<and>
   (\<exists>r. run (exampleContext 64) examplePass exampleQuery = Some r \<and>
        predicateAlwaysHeld (passAfter r) \<and> predicateCalls r = [2, 3, 0, 1] \<and>
        count_list (predicateCalls r) 0 = 1)"
proof -
  have fin: "finite (reachable (exampleContext 64) exampleQuery)" by (rule example_finite)
  obtain r where r: "run (exampleContext 64) examplePass exampleQuery = Some r"
    and once: "predicateAlwaysHeld (passAfter r) \<longrightarrow>
       (\<forall>n\<in>reachable (exampleContext 64) exampleQuery. count_list (predicateCalls r) n = 1)"
    using sort_conformance_check_result[OF fin, of examplePass] by blast
  have h: "predicateAlwaysHeld (passAfter r)" and c: "predicateCalls r = [2, 3, 0, 1]"
    using r by (auto simp: example_run_64 predicateAlwaysHeld_def)
  have "0 \<in> reachable (exampleContext 64) exampleQuery" by (simp add: example_reachable)
  with once h have "count_list (predicateCalls r) 0 = 1" by blast
  with fin r h c show ?thesis by blast
qed

text \<open>
  Claim C3 as stated fails where the predicate fails: with \<open>y\<close> of width 65 the loop
  stops at \<open>y\<close>, and \<open>x\<close>, a reachable term shared by both constraints, is evaluated
  zero times.
\<close>

theorem shared_term_not_evaluated_counterexample:
  "0 \<in> kidsOf (exampleContext 65) 1 \<and> 0 \<in> kidsOf (exampleContext 65) 2 \<and>
   0 \<in> reachable (exampleContext 65) exampleQuery \<and>
   map_option predicateCalls (run (exampleContext 65) examplePass exampleQuery) = Some [2, 3] \<and>
   count_list [2, 3] (0::nat) = 0"
  by (simp add: example_run_65 example_reachable kidsOf_def exampleContext_def)

section \<open>What the pass returns and what it leaves alone\<close>

text \<open>
  Claim C9.  On every query with finitely many reachable terms \<open>run\<close> returns, and the
  query and the term graph behind its \<open>Query&\<close> argument are afterwards what they were
  before: the constraint list is the same list and every handle denotes the same node.
\<close>

theorem run_leaves_query_unchanged:
  assumes "finite (reachable g q)"
  shows "\<exists>r. run g p q = Some r \<and> queryAfter r = q \<and> contextAfter r = g \<and>
           constraints (queryAfter r) = constraints q \<and>
           (\<forall>n. contextAfter r n = g n)"
proof -
  obtain s' :: LoopState where "run g p q =
      Some \<lparr>returned = False, passAfter = p\<lparr>predicateHeld := held s'\<rparr>,
            queryAfter = q, contextAfter = g, predicateCalls = evaluated s'\<rparr>"
    using run_total_correct[OF assms] by blast
  then show ?thesis by simp
qed

text \<open>The theorem at the example query.\<close>

theorem run_leaves_query_unchanged_witness:
  "finite (reachable (exampleContext 64) exampleQuery) \<and>
   map_option queryAfter (run (exampleContext 64) examplePass exampleQuery)
     = Some \<lparr>constraints = [1, 2]\<rparr> \<and>
   map_option contextAfter (run (exampleContext 64) examplePass exampleQuery)
     = Some (exampleContext 64)"
proof -
  have fin: "finite (reachable (exampleContext 64) exampleQuery)" by (rule example_finite)
  obtain r where r: "run (exampleContext 64) examplePass exampleQuery = Some r"
    and q: "queryAfter r = exampleQuery" and c: "contextAfter r = exampleContext 64"
    using run_leaves_query_unchanged[OF fin, of examplePass] by blast
  show ?thesis using fin r q c by (simp add: exampleQuery_def)
qed

lemma sortsAreSupported_returns:
  assumes "finite (reachable g q)"
  shows "\<exists>s'. sortsAreSupported env g s q =
            Some ((\<forall>n\<in>reachable g q. fst (sortPredicate (verbosity env) (nodeSort (g n)))), s')
          \<and> cancelled s' = (cancelled s \<or> cancelDuring env CheckSorts)
          \<and> cancellablePasses s' = cancellablePasses s - {SortConformanceCheckPassPtr}
          \<and> errorStream s' = errorStream s \<and> debugStream s' = debugStream s
          \<and> calls s' = calls s @ RunSortConformanceCheckPass #
               (if cancelDuring env CheckSorts
                then [PassCancel (insert SortConformanceCheckPassPtr (cancellablePasses s)),
                      ClangCancel, LibFuzzerCancel]
                else [])"
proof -
  let ?p = "newSortConformanceCheckPass (\<lambda>srt. fst (sortPredicate (verbosity env) srt))"
  obtain t where r: "run g ?p q =
      Some \<lparr>returned = False, passAfter = ?p\<lparr>predicateHeld := held t\<rparr>,
            queryAfter = q, contextAfter = g, predicateCalls = evaluated t\<rparr>"
    and post: "loopPost g (predicate ?p) q t"
    using run_total_correct[OF assms] by blast
  from post have h: "held t = (\<forall>n\<in>reachable g q. fst (sortPredicate (verbosity env) (nodeSort (g n))))"
    unfolding loopPost_def newSortConformanceCheckPass_def by simp
  show ?thesis
    unfolding sortsAreSupported_def Let_def r
    by (simp add: h predicateAlwaysHeld_def concurrently_def cancel_def)
qed

text \<open>
  Claim C10.  On every query with finitely many reachable terms \<open>run\<close> returns the
  boolean \<open>false\<close>, whether or not the predicate held; the outcome of the check is the
  member \<open>predicateHeld\<close>, read through \<open>predicateAlwaysHeld\<close>, and that value, not
  the returned boolean, is what \<open>sortsAreSupported\<close> hands back.
\<close>

theorem run_returns_false:
  assumes "finite (reachable g q)"
  shows "(\<exists>r. run g p q = Some r \<and> returned r = False \<and>
            predicateAlwaysHeld (passAfter r)
              = (\<forall>n\<in>reachable g q. predicate p (nodeSort (g n)))) \<and>
         (\<exists>s'. sortsAreSupported env g s q =
            Some ((\<forall>n\<in>reachable g q. fst (sortPredicate (verbosity env) (nodeSort (g n)))), s'))"
proof -
  obtain s' where r: "run g p q =
      Some \<lparr>returned = False, passAfter = p\<lparr>predicateHeld := held s'\<rparr>,
            queryAfter = q, contextAfter = g, predicateCalls = evaluated s'\<rparr>"
    and post: "loopPost g (predicate p) q s'"
    using run_total_correct[OF assms] by blast
  have a: "\<exists>r. run g p q = Some r \<and> returned r = False \<and>
            predicateAlwaysHeld (passAfter r)
              = (\<forall>n\<in>reachable g q. predicate p (nodeSort (g n)))"
    using r post unfolding loopPost_def predicateAlwaysHeld_def by simp
  show ?thesis using a sortsAreSupported_returns[OF assms, of env s] by blast
qed

text \<open>
  The theorem at the example query, once with every sort supported and once with a
  bit vector of width 65: \<open>run\<close> returns \<open>false\<close> both times, the accessor differs.
\<close>

theorem run_returns_false_witness:
  "finite (reachable (exampleContext 64) exampleQuery) \<and>
   finite (reachable (exampleContext 65) exampleQuery) \<and>
   map_option returned (run (exampleContext 64) examplePass exampleQuery) = Some False \<and>
   map_option (predicateAlwaysHeld \<circ> passAfter)
     (run (exampleContext 64) examplePass exampleQuery) = Some True \<and>
   map_option returned (run (exampleContext 65) examplePass exampleQuery) = Some False \<and>
   map_option (predicateAlwaysHeld \<circ> passAfter)
     (run (exampleContext 65) examplePass exampleQuery) = Some False \<and>
   map_option fst (sortsAreSupported exampleEnvironment (exampleContext 64)
     newCXXFuzzingSolverImpl exampleQuery) = Some True \<and>
   map_option fst (sortsAreSupported exampleEnvironment (exampleContext 65)
     newCXXFuzzingSolverImpl exampleQuery) = Some False"
proof -
  have f64: "finite (reachable (exampleContext 64) exampleQuery)"
    and f65: "finite (reachable (exampleContext 65) exampleQuery)"
    by (rule example_finite)+
  have p64: "\<forall>n\<in>reachable (exampleContext 64) exampleQuery.
      fst (sortPredicate (verbosity exampleEnvironment) (nodeSort (exampleContext 64 n)))"
    by (simp add: example_reachable exampleContext_def sortPredicate_def)
  have p65: "\<not> (\<forall>n\<in>reachable (exampleContext 65) exampleQuery.
      fst (sortPredicate (verbosity exampleEnvironment) (nodeSort (exampleContext 65 n))))"
    by (simp add: example_reachable exampleContext_def sortPredicate_def)
  from run_returns_false[OF f64, of examplePass exampleEnvironment newCXXFuzzingSolverImpl]
  have a: "map_option returned (run (exampleContext 64) examplePass exampleQuery) = Some False"
    and b: "map_option fst (sortsAreSupported exampleEnvironment (exampleContext 64)
     newCXXFuzzingSolverImpl exampleQuery) = Some True"
    using p64 by auto
  from run_returns_false[OF f65, of examplePass exampleEnvironment newCXXFuzzingSolverImpl]
  have c: "map_option returned (run (exampleContext 65) examplePass exampleQuery) = Some False"
    and d: "map_option fst (sortsAreSupported exampleEnvironment (exampleContext 65)
     newCXXFuzzingSolverImpl exampleQuery) = Some False"
    using p65 by auto
  show ?thesis using f64 f65 a b c d
    by (simp add: example_run_64 example_run_65 predicateAlwaysHeld_def)
qed

section \<open>The default sort predicate\<close>

lemma digitValue_char_of: "d < 10 \<Longrightarrow> digitValue (char_of (48 + d)) = d"
  by (simp add: digitValue_def)

lemma readNat_snoc: "readNat (cs @ [c]) = 10 * readNat cs + digitValue c"
  by (simp add: readNat_def)

lemma readNat_showNat: "readNat (showNat n) = n"
proof (induction n rule: showNat.induct)
  case (1 n)
  show ?case
  proof (cases "n < 10")
    case True
    then show ?thesis
      by (subst showNat.simps) (simp add: readNat_def digitValue_char_of)
  next
    case False
    have "readNat (showNat n) = 10 * readNat (showNat (n div 10)) + digitValue (char_of (48 + n mod 10))"
      using False by (subst showNat.simps) (simp add: readNat_snoc)
    also have "\<dots> = 10 * (n div 10) + n mod 10"
      using 1[OF False] by (simp add: digitValue_char_of)
    finally show ?thesis by simp
  qed
qed

text \<open>
  Claim C4, as the code has it.  The lambda of \<open>sortsAreSupported\<close> accepts the Boolean
  sort and writes nothing; it accepts a bit vector exactly when its width is at most
  64, so 64 passes and 65 fails; it rejects every other sort.  The diagnostics are
  written under \<open>IF_VERB\<close>: when the verbosity of the context is above 0 a rejected
  bit vector yields one warning that holds the decimal numeral of its width (reading
  the numeral back gives the width), and a rejected sort of another kind one warning
  that holds its text; at verbosity 0 nothing is written.
\<close>

theorem default_sort_predicate:
  "fst (sortPredicate v BoolSort) \<and> snd (sortPredicate v BoolSort) = [] \<and>
   fst (sortPredicate v (BVSort w)) = (w \<le> 64) \<and>
   fst (sortPredicate v (BVSort 64)) \<and> \<not> fst (sortPredicate v (BVSort 65)) \<and>
   (w \<le> 64 \<longrightarrow> snd (sortPredicate v (BVSort w)) = []) \<and>
   (\<not> w \<le> 64 \<and> 0 < v \<longrightarrow>
      snd (sortPredicate v (BVSort w))
        = [''(BitVector width '' @ showNat (unat w) @ '' not supported)'' @ [CHR 0x0A]] \<and>
      readNat (showNat (unat w)) = unat w) \<and>
   \<not> fst (sortPredicate v (OtherSort str)) \<and>
   (0 < v \<longrightarrow>
      snd (sortPredicate v (OtherSort str))
        = [''(Sort '' @ [CHR 0x22] @ str @ [CHR 0x22] @ '' not supported)'' @ [CHR 0x0A]]) \<and>
   (v = 0 \<longrightarrow> snd (sortPredicate v s) = [])"
  by (cases s) (simp_all add: sortPredicate_def IF_VERB_def readNat_showNat)

text \<open>The theorem at verbosity 1, width 65 and a sort printed as \<open>Int\<close>.\<close>

theorem default_sort_predicate_witness:
  "\<not> (65 :: 32 word) \<le> 64 \<and> (0::nat) < 1 \<and>
   sortPredicate 1 (BVSort 65) = (False, [''(BitVector width 65 not supported)'' @ [CHR 0x0A]]) \<and>
   readNat ''65'' = 65 \<and>
   sortPredicate 1 (OtherSort ''Int'')
     = (False, [''(Sort '' @ [CHR 0x22] @ ''Int'' @ [CHR 0x22] @ '' not supported)'' @ [CHR 0x0A]])"
proof -
  have s: "showNat (unat (65 :: 32 word)) = ''65''" by code_simp
  have h: "\<not> (65 :: 32 word) \<le> 64" "(0::nat) < 1" by simp_all
  show ?thesis
    using default_sort_predicate[of 1 65 "''Int''" BoolSort] h s
    by (auto simp: prod_eq_iff)
qed

text \<open>
  Claim C4 as stated fails in a quiet context: at verbosity 0 the width 65 and the sort
  \<open>Int\<close> are rejected and no diagnostic is written.
\<close>

theorem quiet_rejection_counterexample:
  "sortPredicate 0 (BVSort 65) = (False, []) \<and> sortPredicate 0 (OtherSort ''Int'') = (False, [])"
  by (simp add: sortPredicate_def IF_VERB_def)

section \<open>The orchestrator\<close>

lemmas fuzz_steps =
  buildProgram_def compile_def runFuzzer_def concurrently_def cancel_def
  cancelledResponse_def callsSince_def invocations_def

text \<open>
  Claim C2, as the code has it.  When the caller asks for a model, \<open>fuzz\<close> writes one
  message to the error stream and returns the null pointer, not a response that holds
  UNKNOWN; nothing else of the solver changes and no call is logged, so the sort
  check, the program builder, the compilation and the fuzzer each run zero times.
\<close>

theorem model_request_returns_null:
  "fuzz env g s q True =
     Some (nullptr,
           s\<lparr>errorStream := errorStream s @
                [''(error model generation not supported)'' @ [CHR 0x0A]]\<rparr>) \<and>
   callsSince s (s\<lparr>errorStream := errorStream s @
                [''(error model generation not supported)'' @ [CHR 0x0A]]\<rparr>) = []"
  by (simp add: fuzz_def callsSince_def)

text \<open>
  Claim C2 as stated fails: on the example query with a model requested the pointer
  returned is null, which is not a response with the verdict UNKNOWN.
\<close>

theorem model_request_not_unknown_counterexample:
  "map_option fst (fuzz exampleEnvironment (exampleContext 64) newCXXFuzzingSolverImpl
      exampleQuery True) = Some nullptr \<and>
   map_option fst (fuzz exampleEnvironment (exampleContext 64) newCXXFuzzingSolverImpl
      exampleQuery True) \<noteq> Some (Ptr \<lparr>sat = UNKNOWN\<rparr>)"
  by (simp add: fuzz_def)

lemma fuzz_returns:
  assumes "finite (reachable g q)"
  shows "\<exists>r s'. fuzz env g s q pm = Some (r, s')"
proof -
  obtain s1 where "sortsAreSupported env g s q =
      Some ((\<forall>n\<in>reachable g q. fst (sortPredicate (verbosity env) (nodeSort (g n)))), s1)"
    using sortsAreSupported_returns[OF assms, of env s] by blast
  then show ?thesis unfolding fuzz_def by (simp add: Let_def cancelledResponse_def)
qed

text \<open>
  Claim C5, as the code has it, for a call that requests no model.  \<open>CHECK_CANCELLED\<close>
  stands at three places: after the sort check, after the program builder and after a
  successful compilation.  So a flag set before the call or during the sort check
  gives UNKNOWN with no run of the program builder, the compilation or the fuzzer; a
  flag set during the program builder gives UNKNOWN with no compilation and no fuzzer;
  a flag set during the compilation gives UNKNOWN with no fuzzer.  Neither \<open>fuzz\<close> nor
  \<open>cancel\<close> clears the flag: a flag set before the call, or set by a \<open>cancel()\<close> that
  lands in a state the call reaches (the configuration of the fuzzer and the fuzzer's
  run included), is still set when the call returns, and a call that requests a model
  leaves the flag as it found it.
\<close>

theorem cancellation_checkpoints:
  assumes "finite (reachable g q)"
  shows "\<exists>r s'. fuzz env g s q False = Some (r, s') \<and>
     (cancelled s \<or> cancelDuring env CheckSorts \<longrightarrow>
        r = Ptr \<lparr>sat = UNKNOWN\<rparr> \<and>
        invocations isBuildProgramCall (callsSince s s') = 0 \<and>
        invocations isCompileCall (callsSince s s') = 0 \<and>
        invocations isFuzzCall (callsSince s s') = 0) \<and>
     (cancelDuring env BuildProgram \<longrightarrow>
        r = Ptr \<lparr>sat = UNKNOWN\<rparr> \<and>
        invocations isCompileCall (callsSince s s') = 0 \<and>
        invocations isFuzzCall (callsSince s s') = 0) \<and>
     (cancelDuring env Compile \<longrightarrow>
        r = Ptr \<lparr>sat = UNKNOWN\<rparr> \<and>
        invocations isFuzzCall (callsSince s s') = 0) \<and>
     (cancelled s \<longrightarrow> cancelled s') \<and>
     (cancelDuring env CheckSorts \<longrightarrow> cancelled s') \<and>
     (0 < invocations isBuildProgramCall (callsSince s s') \<and> cancelDuring env BuildProgram
        \<longrightarrow> cancelled s') \<and>
     (0 < invocations isCompileCall (callsSince s s') \<and> cancelDuring env Compile
        \<longrightarrow> cancelled s') \<and>
     (0 < invocations isFuzzCall (callsSince s s') \<and>
      (cancelDuring env ConfigureFuzzer \<or> cancelDuring env Fuzz)
        \<longrightarrow> cancelled s') \<and>
     (\<exists>r' t. fuzz env g s q True = Some (r', t) \<and> cancelled t = cancelled s) \<and>
     cancelled (cancel s)"
proof -
  obtain s1 where ss: "sortsAreSupported env g s q =
      Some ((\<forall>n\<in>reachable g q. fst (sortPredicate (verbosity env) (nodeSort (g n)))), s1)"
    and c1: "cancelled s1 = (cancelled s \<or> cancelDuring env CheckSorts)"
    and l1: "calls s1 = calls s @ RunSortConformanceCheckPass #
               (if cancelDuring env CheckSorts
                then [PassCancel (insert SortConformanceCheckPassPtr (cancellablePasses s)),
                      ClangCancel, LibFuzzerCancel]
                else [])"
    using sortsAreSupported_returns[OF assms, of env s] by blast
  show ?thesis
    unfolding fuzz_def ss
    by (simp add: Let_def c1 l1 fuzz_steps)
qed

subsection \<open>The orchestrator on the example query\<close>

lemmas example_defs =
  exampleEnvironment_def exampleContext_def exampleQuery_def newCXXFuzzingSolverImpl_def
  noCancel_def cancelWhileConfiguring_def cancelWhileCompiling_def inWorkDir_def

lemmas eval_defs =
  fuzz_def sortsAreSupported_def run_def runLoop.simps newSortConformanceCheckPass_def
  predicateAlwaysHeld_def sortPredicate_def IF_VERB_def pushFrontAll_eq
  configureFuzzer_def clangStdOutFile_def clangStdErrFile_def
  libFuzzerStdOutFile_def libFuzzerStdErrFile_def getName_def

lemma example_fuzz:
  "fuzz exampleEnvironment (exampleContext 64) newCXXFuzzingSolverImpl exampleQuery False =
     Some (Ptr \<lparr>sat = SAT\<rparr>,
       \<lparr>cancellablePasses = {CXXProgramBuilderPassPtr}, cancelled = False,
        errorStream = [], warningStream = [], debugStream = [],
        calls = [RunSortConformanceCheckPass, RunCXXProgramBuilderPass,
                 ClangCompile ''/wd/program.cpp'' ''/wd/fuzzer''
                   ''/wd/clang.stdout.txt'' ''/wd/clang.stderr.txt'',
                 LibFuzzerFuzz
                   \<lparr>maxLength = 3, targetBinary = ''/wd/fuzzer'',
                    corpusDir = ''/wd/corpus'', artifactDir = ''/wd/artifacts'',
                    useCmp = True\<rparr>
                   ''/wd/libfuzzer.stdout.txt'' ''/wd/libfuzzer.stderr.txt'']\<rparr>)"
  by (simp add: eval_defs fuzz_steps example_defs)

lemma example_fuzz_cancelled_before:
  "fuzz exampleEnvironment (exampleContext 64) (cancel newCXXFuzzingSolverImpl) exampleQuery False =
     Some (Ptr \<lparr>sat = UNKNOWN\<rparr>,
       \<lparr>cancellablePasses = {}, cancelled = True,
        errorStream = [], warningStream = [], debugStream = [],
        calls = [PassCancel {}, ClangCancel, LibFuzzerCancel, RunSortConformanceCheckPass]\<rparr>)"
  by (simp add: eval_defs fuzz_steps example_defs)

lemma example_fuzz_cancel_while_configuring:
  "fuzz (exampleEnvironment\<lparr>cancelDuring := cancelWhileConfiguring\<rparr>) (exampleContext 64)
      newCXXFuzzingSolverImpl exampleQuery False =
     Some (Ptr \<lparr>sat = SAT\<rparr>,
       \<lparr>cancellablePasses = {CXXProgramBuilderPassPtr}, cancelled = True,
        errorStream = [], warningStream = [], debugStream = [],
        calls = [RunSortConformanceCheckPass, RunCXXProgramBuilderPass,
                 ClangCompile ''/wd/program.cpp'' ''/wd/fuzzer''
                   ''/wd/clang.stdout.txt'' ''/wd/clang.stderr.txt'',
                 PassCancel {CXXProgramBuilderPassPtr}, ClangCancel, LibFuzzerCancel,
                 LibFuzzerFuzz
                   \<lparr>maxLength = 3, targetBinary = ''/wd/fuzzer'',
                    corpusDir = ''/wd/corpus'', artifactDir = ''/wd/artifacts'',
                    useCmp = True\<rparr>
                   ''/wd/libfuzzer.stdout.txt'' ''/wd/libfuzzer.stderr.txt'']\<rparr>)"
  by (simp add: eval_defs fuzz_steps example_defs)

text \<open>
  The theorem at the example query, with \<open>cancel()\<close> called before the call, with
  \<open>cancel()\<close> called during the compilation, and with \<open>cancel()\<close> called while the
  fuzzer is configured: the fuzzer runs and the flag is still set afterwards.
\<close>

theorem cancellation_checkpoints_witness:
  "finite (reachable (exampleContext 64) exampleQuery) \<and>
   cancelled (cancel newCXXFuzzingSolverImpl) \<and>
   map_option fst (fuzz exampleEnvironment (exampleContext 64)
      (cancel newCXXFuzzingSolverImpl) exampleQuery False) = Some (Ptr \<lparr>sat = UNKNOWN\<rparr>) \<and>
   cancelDuring (exampleEnvironment\<lparr>cancelDuring := cancelWhileCompiling\<rparr>) Compile \<and>
   map_option fst (fuzz (exampleEnvironment\<lparr>cancelDuring := cancelWhileCompiling\<rparr>)
      (exampleContext 64) newCXXFuzzingSolverImpl exampleQuery False)
     = Some (Ptr \<lparr>sat = UNKNOWN\<rparr>) \<and>
   cancelDuring (exampleEnvironment\<lparr>cancelDuring := cancelWhileConfiguring\<rparr>)
      ConfigureFuzzer \<and>
   (\<exists>r s'. fuzz (exampleEnvironment\<lparr>cancelDuring := cancelWhileConfiguring\<rparr>)
             (exampleContext 64) newCXXFuzzingSolverImpl exampleQuery False = Some (r, s') \<and>
           invocations isFuzzCall (callsSince newCXXFuzzingSolverImpl s') = 1 \<and>
           cancelled s')"
proof -
  let ?envC = "exampleEnvironment\<lparr>cancelDuring := cancelWhileCompiling\<rparr>"
  let ?envF = "exampleEnvironment\<lparr>cancelDuring := cancelWhileConfiguring\<rparr>"
  have fin: "finite (reachable (exampleContext 64) exampleQuery)" by (rule example_finite)
  have c: "cancelled (cancel newCXXFuzzingSolverImpl)" by (simp add: cancel_def)
  have d: "cancelDuring ?envC Compile"
    by (simp add: cancelWhileCompiling_def)
  have e: "cancelDuring ?envF ConfigureFuzzer"
    by (simp add: cancelWhileConfiguring_def)
  obtain r1 s1 where f1: "fuzz exampleEnvironment (exampleContext 64)
        (cancel newCXXFuzzingSolverImpl) exampleQuery False = Some (r1, s1)"
    and k1: "cancelled (cancel newCXXFuzzingSolverImpl) \<or> cancelDuring exampleEnvironment CheckSorts
      \<longrightarrow> r1 = Ptr \<lparr>sat = UNKNOWN\<rparr> \<and>
        invocations isBuildProgramCall (callsSince (cancel newCXXFuzzingSolverImpl) s1) = 0 \<and>
        invocations isCompileCall (callsSince (cancel newCXXFuzzingSolverImpl) s1) = 0 \<and>
        invocations isFuzzCall (callsSince (cancel newCXXFuzzingSolverImpl) s1) = 0"
    using cancellation_checkpoints[OF fin, of exampleEnvironment "cancel newCXXFuzzingSolverImpl"]
    by (elim exE conjE) (rule that; assumption)
  from k1 c have "r1 = Ptr \<lparr>sat = UNKNOWN\<rparr>" by simp
  then have a: "map_option fst (fuzz exampleEnvironment (exampleContext 64)
      (cancel newCXXFuzzingSolverImpl) exampleQuery False) = Some (Ptr \<lparr>sat = UNKNOWN\<rparr>)"
    by (simp add: f1)
  obtain r2 s2 where f2: "fuzz ?envC (exampleContext 64) newCXXFuzzingSolverImpl
        exampleQuery False = Some (r2, s2)"
    and k2: "cancelDuring ?envC Compile \<longrightarrow>
        r2 = Ptr \<lparr>sat = UNKNOWN\<rparr> \<and>
        invocations isFuzzCall (callsSince newCXXFuzzingSolverImpl s2) = 0"
    using cancellation_checkpoints[OF fin, of ?envC newCXXFuzzingSolverImpl]
    by (elim exE conjE) (rule that; assumption)
  from k2 d have "r2 = Ptr \<lparr>sat = UNKNOWN\<rparr>" by simp
  then have b: "map_option fst (fuzz ?envC
      (exampleContext 64) newCXXFuzzingSolverImpl exampleQuery False)
     = Some (Ptr \<lparr>sat = UNKNOWN\<rparr>)"
    by (simp add: f2)
  obtain r s' where f: "fuzz ?envF (exampleContext 64) newCXXFuzzingSolverImpl
      exampleQuery False = Some (r, s')"
    and k: "0 < invocations isFuzzCall (callsSince newCXXFuzzingSolverImpl s') \<and>
      (cancelDuring ?envF ConfigureFuzzer \<or> cancelDuring ?envF Fuzz) \<longrightarrow> cancelled s'"
    using cancellation_checkpoints[OF fin, of ?envF newCXXFuzzingSolverImpl]
    by (elim exE conjE) (rule that; assumption)
  have l: "calls s' = [RunSortConformanceCheckPass, RunCXXProgramBuilderPass,
                 ClangCompile ''/wd/program.cpp'' ''/wd/fuzzer''
                   ''/wd/clang.stdout.txt'' ''/wd/clang.stderr.txt'',
                 PassCancel {CXXProgramBuilderPassPtr}, ClangCancel, LibFuzzerCancel,
                 LibFuzzerFuzz
                   \<lparr>maxLength = 3, targetBinary = ''/wd/fuzzer'',
                    corpusDir = ''/wd/corpus'', artifactDir = ''/wd/artifacts'',
                    useCmp = True\<rparr>
                   ''/wd/libfuzzer.stdout.txt'' ''/wd/libfuzzer.stderr.txt'']"
    using f by (auto simp: example_fuzz_cancel_while_configuring)
  have i: "invocations isFuzzCall (callsSince newCXXFuzzingSolverImpl s') = 1"
    by (simp add: l invocations_def callsSince_def newCXXFuzzingSolverImpl_def)
  from k i e have "cancelled s'" by simp
  with f i have g: "\<exists>r s'. fuzz ?envF (exampleContext 64) newCXXFuzzingSolverImpl
       exampleQuery False = Some (r, s') \<and>
       invocations isFuzzCall (callsSince newCXXFuzzingSolverImpl s') = 1 \<and> cancelled s'"
    by blast
  show ?thesis using fin c d a b e g by blast
qed

text \<open>
  Claim C5 as stated fails at two boundaries.  Between Init and CheckSorts: with the
  flag set before the call the sort conformance pass still runs.  Between
  ConfigureFuzzer and Fuzz: with \<open>cancel()\<close> called while the fuzzer is configured, the
  fuzzer still runs and the verdict is SAT.
\<close>

theorem checkpoint_missing_counterexample:
  "cancelled (cancel newCXXFuzzingSolverImpl) \<and>
   map_option (calls \<circ> snd) (fuzz exampleEnvironment (exampleContext 64)
      (cancel newCXXFuzzingSolverImpl) exampleQuery False)
     = Some [PassCancel {}, ClangCancel, LibFuzzerCancel, RunSortConformanceCheckPass] \<and>
   cancelDuring (exampleEnvironment\<lparr>cancelDuring := cancelWhileConfiguring\<rparr>) ConfigureFuzzer \<and>
   map_option fst (fuzz (exampleEnvironment\<lparr>cancelDuring := cancelWhileConfiguring\<rparr>)
      (exampleContext 64) newCXXFuzzingSolverImpl exampleQuery False)
     = Some (Ptr \<lparr>sat = SAT\<rparr>)"
proof -
  have "cancelled (cancel newCXXFuzzingSolverImpl)" by (simp add: cancel_def)
  then show ?thesis
    by (simp add: example_fuzz_cancelled_before example_fuzz_cancel_while_configuring
        cancelWhileConfiguring_def)
qed

text \<open>
  Claim C1 against the code.  The statement that follows the run of the program
  builder, under the comment that announces its removal, is a second
  \<open>cancellablePasses.insert(pbp.get())\<close>: after the call of \<open>fuzz\<close> on the example
  query the program builder pass is still registered, and a later \<open>cancel()\<close> calls
  \<open>cancel()\<close> on it.  \<open>sortsAreSupported\<close> does erase its pass.
\<close>

theorem program_builder_pass_stays_registered:
  "map_option (cancellablePasses \<circ> snd)
     (fuzz exampleEnvironment (exampleContext 64) newCXXFuzzingSolverImpl exampleQuery False)
     = Some {CXXProgramBuilderPassPtr} \<and>
   map_option (passesCancelled \<circ> calls \<circ> cancel \<circ> snd)
     (fuzz exampleEnvironment (exampleContext 64) newCXXFuzzingSolverImpl exampleQuery False)
     = Some {CXXProgramBuilderPassPtr} \<and>
   map_option (cancellablePasses \<circ> snd)
     (sortsAreSupported exampleEnvironment (exampleContext 64) newCXXFuzzingSolverImpl
        exampleQuery) = Some {}"
proof -
  have "sortsAreSupported exampleEnvironment (exampleContext 64) newCXXFuzzingSolverImpl
        exampleQuery =
     Some (True, \<lparr>cancellablePasses = {}, cancelled = False,
        errorStream = [], warningStream = [], debugStream = [],
        calls = [RunSortConformanceCheckPass]\<rparr>)"
    by (simp add: eval_defs fuzz_steps example_defs)
  then show ?thesis by (simp add: example_fuzz cancel_def)
qed

subsection \<open>Verdicts, compilation failure and the fuzzer's input length\<close>

lemma fuzz_cases:
  assumes "finite (reachable g q)"
  obtains s1 where "sortsAreSupported env g s q =
      Some ((\<forall>n\<in>reachable g q. fst (sortPredicate (verbosity env) (nodeSort (g n)))), s1)"
    and "cancelled s1 = (cancelled s \<or> cancelDuring env CheckSorts)"
    and "calls s1 = calls s @ RunSortConformanceCheckPass #
               (if cancelDuring env CheckSorts
                then [PassCancel (insert SortConformanceCheckPassPtr (cancellablePasses s)),
                      ClangCancel, LibFuzzerCancel]
                else [])"
  using sortsAreSupported_returns[OF assms, of env s] by blast

text \<open>
  Claim C6.  On every query with finitely many reachable terms \<open>fuzz\<close> returns, and
  never a response that holds UNSAT.  When the call reached the fuzzer, the outcome
  TARGET_FOUND gives the verdict SAT, the outcomes UNKNOWN and CANCELLED give the
  verdict UNKNOWN, and the verdict is one of the two.
\<close>

theorem fuzz_outcome_verdict:
  assumes "finite (reachable g q)"
  shows "\<exists>r s'. fuzz env g s q produceModel = Some (r, s') \<and>
     r \<noteq> Ptr \<lparr>sat = UNSAT\<rparr> \<and>
     (0 < invocations isFuzzCall (callsSince s s') \<longrightarrow>
        (fuzzingOutcome env = TARGET_FOUND \<longrightarrow> r = Ptr \<lparr>sat = SAT\<rparr>) \<and>
        (fuzzingOutcome env = LF_UNKNOWN \<or> fuzzingOutcome env = CANCELLED
           \<longrightarrow> r = Ptr \<lparr>sat = UNKNOWN\<rparr>) \<and>
        (r = Ptr \<lparr>sat = SAT\<rparr> \<or> r = Ptr \<lparr>sat = UNKNOWN\<rparr>))"
proof -
  obtain s1 where ss: "sortsAreSupported env g s q =
      Some ((\<forall>n\<in>reachable g q. fst (sortPredicate (verbosity env) (nodeSort (g n)))), s1)"
    and c1: "cancelled s1 = (cancelled s \<or> cancelDuring env CheckSorts)"
    and l1: "calls s1 = calls s @ RunSortConformanceCheckPass #
               (if cancelDuring env CheckSorts
                then [PassCancel (insert SortConformanceCheckPassPtr (cancellablePasses s)),
                      ClangCancel, LibFuzzerCancel]
                else [])"
    using assms by (rule fuzz_cases)
  show ?thesis
    unfolding fuzz_def ss
    by (cases "fuzzingOutcome env") (simp_all add: Let_def c1 l1 fuzz_steps)
qed

text \<open>The theorem at the example query: the fuzzer runs, finds the target, the verdict is SAT.\<close>

theorem fuzz_outcome_verdict_witness:
  "finite (reachable (exampleContext 64) exampleQuery) \<and>
   0 < invocations isFuzzCall (callsSince newCXXFuzzingSolverImpl
         (snd (the (fuzz exampleEnvironment (exampleContext 64) newCXXFuzzingSolverImpl
            exampleQuery False)))) \<and>
   fuzzingOutcome exampleEnvironment = TARGET_FOUND \<and>
   map_option fst (fuzz exampleEnvironment (exampleContext 64) newCXXFuzzingSolverImpl
      exampleQuery False) = Some (Ptr \<lparr>sat = SAT\<rparr>)"
proof -
  have fin: "finite (reachable (exampleContext 64) exampleQuery)" by (rule example_finite)
  obtain r s' where f: "fuzz exampleEnvironment (exampleContext 64) newCXXFuzzingSolverImpl
      exampleQuery False = Some (r, s')"
    and v: "0 < invocations isFuzzCall (callsSince newCXXFuzzingSolverImpl s') \<longrightarrow>
        (fuzzingOutcome exampleEnvironment = TARGET_FOUND \<longrightarrow> r = Ptr \<lparr>sat = SAT\<rparr>)"
    using fuzz_outcome_verdict[OF fin, of exampleEnvironment newCXXFuzzingSolverImpl False]
    by auto
  have c: "calls s' = [RunSortConformanceCheckPass, RunCXXProgramBuilderPass,
                 ClangCompile ''/wd/program.cpp'' ''/wd/fuzzer''
                   ''/wd/clang.stdout.txt'' ''/wd/clang.stderr.txt'',
                 LibFuzzerFuzz
                   \<lparr>maxLength = 3, targetBinary = ''/wd/fuzzer'',
                    corpusDir = ''/wd/corpus'', artifactDir = ''/wd/artifacts'',
                    useCmp = True\<rparr>
                   ''/wd/libfuzzer.stdout.txt'' ''/wd/libfuzzer.stderr.txt'']"
    using f by (auto simp: example_fuzz)
  have i: "0 < invocations isFuzzCall (callsSince newCXXFuzzingSolverImpl s')"
    by (simp add: c invocations_def callsSince_def newCXXFuzzingSolverImpl_def)
  have o: "fuzzingOutcome exampleEnvironment = TARGET_FOUND"
    by (simp add: exampleEnvironment_def)
  from v i o have "r = Ptr \<lparr>sat = SAT\<rparr>" by blast
  with fin f i o show ?thesis by simp
qed

text \<open>
  Claim C8.  On every query with finitely many reachable terms \<open>fuzz\<close> returns, having
  called the compilation at most once and the fuzzer at most once; when the
  compilation was called and reported failure, the verdict is UNKNOWN and the fuzzer
  was not called.
\<close>

theorem compile_failure_is_terminal:
  assumes "finite (reachable g q)"
  shows "\<exists>r s'. fuzz env g s q produceModel = Some (r, s') \<and>
     invocations isCompileCall (callsSince s s') \<le> 1 \<and>
     invocations isFuzzCall (callsSince s s') \<le> 1 \<and>
     (0 < invocations isCompileCall (callsSince s s') \<and> \<not> compileSuccess env \<longrightarrow>
        r = Ptr \<lparr>sat = UNKNOWN\<rparr> \<and> invocations isFuzzCall (callsSince s s') = 0)"
proof -
  obtain s1 where ss: "sortsAreSupported env g s q =
      Some ((\<forall>n\<in>reachable g q. fst (sortPredicate (verbosity env) (nodeSort (g n)))), s1)"
    and c1: "cancelled s1 = (cancelled s \<or> cancelDuring env CheckSorts)"
    and l1: "calls s1 = calls s @ RunSortConformanceCheckPass #
               (if cancelDuring env CheckSorts
                then [PassCancel (insert SortConformanceCheckPassPtr (cancellablePasses s)),
                      ClangCancel, LibFuzzerCancel]
                else [])"
    using assms by (rule fuzz_cases)
  show ?thesis
    unfolding fuzz_def ss
    by (simp add: Let_def c1 l1 fuzz_steps)
qed

lemma example_fuzz_compile_fails:
  "fuzz (exampleEnvironment\<lparr>compileSuccess := False\<rparr>) (exampleContext 64)
      newCXXFuzzingSolverImpl exampleQuery False =
     Some (Ptr \<lparr>sat = UNKNOWN\<rparr>,
       \<lparr>cancellablePasses = {CXXProgramBuilderPassPtr}, cancelled = False,
        errorStream = [], warningStream = [], debugStream = [],
        calls = [RunSortConformanceCheckPass, RunCXXProgramBuilderPass,
                 ClangCompile ''/wd/program.cpp'' ''/wd/fuzzer''
                   ''/wd/clang.stdout.txt'' ''/wd/clang.stderr.txt'']\<rparr>)"
  by (simp add: eval_defs fuzz_steps example_defs)

text \<open>The theorem at the example query with a failing compilation.\<close>

theorem compile_failure_is_terminal_witness:
  "finite (reachable (exampleContext 64) exampleQuery) \<and>
   \<not> compileSuccess (exampleEnvironment\<lparr>compileSuccess := False\<rparr>) \<and>
   (\<exists>r s'. fuzz (exampleEnvironment\<lparr>compileSuccess := False\<rparr>) (exampleContext 64)
             newCXXFuzzingSolverImpl exampleQuery False = Some (r, s') \<and>
           invocations isCompileCall (callsSince newCXXFuzzingSolverImpl s') = 1 \<and>
           r = Ptr \<lparr>sat = UNKNOWN\<rparr> \<and>
           invocations isFuzzCall (callsSince newCXXFuzzingSolverImpl s') = 0)"
proof -
  let ?env = "exampleEnvironment\<lparr>compileSuccess := False\<rparr>"
  have fin: "finite (reachable (exampleContext 64) exampleQuery)" by (rule example_finite)
  have nc: "\<not> compileSuccess ?env" by simp
  obtain r s' where f: "fuzz ?env (exampleContext 64) newCXXFuzzingSolverImpl
      exampleQuery False = Some (r, s')"
    and t: "0 < invocations isCompileCall (callsSince newCXXFuzzingSolverImpl s') \<and>
         \<not> compileSuccess ?env \<longrightarrow>
        r = Ptr \<lparr>sat = UNKNOWN\<rparr> \<and>
        invocations isFuzzCall (callsSince newCXXFuzzingSolverImpl s') = 0"
    using compile_failure_is_terminal[OF fin, of ?env newCXXFuzzingSolverImpl False]
    by auto
  have c: "calls s' = [RunSortConformanceCheckPass, RunCXXProgramBuilderPass,
                 ClangCompile ''/wd/program.cpp'' ''/wd/fuzzer''
                   ''/wd/clang.stdout.txt'' ''/wd/clang.stderr.txt'']"
    using f by (auto simp: example_fuzz_compile_fails)
  have i: "invocations isCompileCall (callsSince newCXXFuzzingSolverImpl s') = 1"
    by (simp add: c invocations_def callsSince_def newCXXFuzzingSolverImpl_def)
  from t i nc have "r = Ptr \<lparr>sat = UNKNOWN\<rparr> \<and>
        invocations isFuzzCall (callsSince newCXXFuzzingSolverImpl s') = 0"
    by simp
  with fin nc f i show ?thesis by blast
qed




text \<open>
  The quotient that \<open>configureFuzzer\<close> writes out on natural numbers is the one of the
  machine: for an unsigned integer \<open>w\<close> of any width above 3 bits, \<open>(w + 7) / 8\<close>
  is \<open>((w + 7) mod 2 ^ width) div 8\<close>.
\<close>

lemma maxLength_unsigned:
  fixes w :: "'a::len word"
  assumes lt8: "(8::nat) < 2 ^ LENGTH('a)"
  shows "unat ((w + 7) div 8) = ((unat w + 7) mod 2 ^ LENGTH('a)) div 8"
proof -
  have lt7: "(7::nat) < 2 ^ LENGTH('a)" using lt8 by simp
  have u7: "unat (7 :: 'a word) = 7"
    by (rule of_nat_inverse[OF _ lt7]) simp
  have u8: "unat (8 :: 'a word) = 8"
    by (rule of_nat_inverse[OF _ lt8]) simp
  have "unat (w + 7) = (unat w + unat (7 :: 'a word)) mod 2 ^ LENGTH('a)"
    by (rule unat_word_ariths(1))
  then have "unat (w + 7) = (unat w + 7) mod 2 ^ LENGTH('a)"
    by (simp only: u7)
  then show ?thesis by (simp only: unat_div u8)
qed

end
